theory Spec2Isabelle
  imports Complex_Main
begin

section \<open>Flappy Kaho: the game engine of game.js\<close>

text \<open>
  The theory embeds the second (richer) version of the game script, the one with the
  parallax background and the sound manager. JavaScript numbers are modelled as
  \<^typ>\<open>real\<close> (the arithmetic of the script is read exactly, without rounding), the
  score as \<^typ>\<open>int\<close>, and the one place where the script can hold \<open>NaN\<close>, the best
  score parsed from storage, as a datatype of its own. The module-level variables of the
  script are the fields of one record, every handler is a function from that record to
  the updated record, and an uncaught \<open>TypeError\<close> is a value that carries the variables
  as they were when it was thrown. Drawing and text output are left out: they read the
  variables and write none of them.
\<close>

subsection \<open>Constants\<close>

definition GRAVITY :: real where "GRAVITY = 0.25"
definition JUMP :: real where "JUMP = - 4.6"
definition PIPE_SPEED :: real where "PIPE_SPEED = 2"
definition PIPE_SPAWN_RATE :: real where "PIPE_SPAWN_RATE = 1800"
definition PIPE_WIDTH :: real where "PIPE_WIDTH = 52"
definition PIPE_GAP :: real where "PIPE_GAP = 130"
definition BIRD_SIZE :: real where "BIRD_SIZE = 30"
definition BIRD_X :: real where "BIRD_X = 50"
definition MAX_CONCURRENT_SOUNDS :: int where "MAX_CONCURRENT_SOUNDS = 3"

subsection \<open>Data\<close>

datatype gstate = READY | PLAYING | GAME_OVER

datatype error = TypeError

text \<open>What \<open>parseInt\<close> returns: an integer or \<open>NaN\<close>.\<close>

datatype jsnum = Num int | NaN

datatype audioState = Suspended | Running

record bird_obj =
  bird_x :: real
  bird_y :: real
  velocity :: real
  radius :: real
  rotation :: real

record pipe_obj =
  pipe_x :: real
  pipe_y :: real
  passed :: bool

record offsets =
  clouds :: real
  hills :: real
  trees :: real
  ground :: real

text \<open>
  The variables of the script. \<open>canvasWidth\<close> and \<open>canvasHeight\<close> are \<open>canvas.width\<close> and
  \<open>canvas.height\<close>; \<open>restartHidden\<close> and \<open>overlayHidden\<close> say whether the class \<open>hidden\<close>
  is on the restart button and on the game-over overlay; \<open>stored\<close> is the value under the
  key \<open>flappyKahoBest\<close> in local storage; \<open>soundTimers\<close> counts the timeouts that
  \<open>playScoreSound\<close> has set and that have not fired yet. The button and the overlay are
  taken to be on the page: the script skips them when they are missing, and then there is
  no click on the button either.
\<close>

record game =
  state :: gstate
  frames :: nat
  lastTime :: real
  score :: int
  bestScore :: jsnum
  pipes :: "pipe_obj list"
  bird :: bird_obj
  prefersReducedMotion :: bool
  motionOverride :: bool
  isTabActive :: bool
  dpr :: real
  spawnTimer :: real
  bgOffsets :: offsets
  audioCtx :: "audioState option"
  activeSounds :: int
  soundTimers :: nat
  canvasWidth :: real
  canvasHeight :: real
  restartHidden :: bool
  overlayHidden :: bool
  stored :: "string option"

text \<open>
  What the page gives the script when it loads: the stored best score, the two media
  and visibility flags, the device pixel ratio, the layout box of the canvas, and the
  markup's initial classes of the restart button and the overlay.
\<close>

record page =
  storedBest :: "string option"
  reducedMotion :: bool
  documentHidden :: bool
  devicePixelRatio :: real
  rectWidth :: real
  rectHeight :: real
  restartBtnHidden :: bool
  gameOverOverlayHidden :: bool

subsection \<open>Reading the best score\<close>

text \<open>
  \<open>parseInt\<close> with no radix: leading white space is skipped, then an optional sign,
  then an optional \<open>0x\<close> prefix that selects radix 16, then the longest run of digits of
  the radix; no digit at all gives \<open>NaN\<close>. Characters are bytes here, so only the ASCII
  white space is skipped, and the value is the exact integer.
\<close>

definition isWhiteSpace :: "char \<Rightarrow> bool" where
  "isWhiteSpace c = (c \<in> set [CHR 0x20, CHR 0x09, CHR 0x0A, CHR 0x0B, CHR 0x0C, CHR 0x0D])"

definition digitValue :: "char \<Rightarrow> nat option" where
  "digitValue c =
     (let n = (of_char c :: nat) in
      if 48 \<le> n \<and> n \<le> 57 then Some (n - 48)
      else if 97 \<le> n \<and> n \<le> 122 then Some (n - 87)
      else if 65 \<le> n \<and> n \<le> 90 then Some (n - 55)
      else None)"

definition isRadixDigit :: "nat \<Rightarrow> char \<Rightarrow> bool" where
  "isRadixDigit R c = (case digitValue c of None \<Rightarrow> False | Some d \<Rightarrow> d < R)"

fun digitsValue :: "nat \<Rightarrow> nat \<Rightarrow> string \<Rightarrow> nat" where
  "digitsValue R acc [] = acc"
| "digitsValue R acc (c # cs) =
     digitsValue R (acc * R + (case digitValue c of None \<Rightarrow> 0 | Some d \<Rightarrow> d)) cs"

definition stripSign :: "string \<Rightarrow> int \<times> string" where
  "stripSign S =
     (case S of
        [] \<Rightarrow> (1, [])
      | c # cs \<Rightarrow> if c = CHR ''-'' then (- 1, cs) else if c = CHR ''+'' then (1, cs) else (1, S))"

definition stripPrefix :: "string \<Rightarrow> nat \<times> string" where
  "stripPrefix S =
     (case S of
        a # b # cs \<Rightarrow> if a = CHR ''0'' \<and> (b = CHR ''x'' \<or> b = CHR ''X'') then (16, cs) else (10, S)
      | _ \<Rightarrow> (10, S))"

definition parseInt :: "string \<Rightarrow> jsnum" where
  "parseInt inputString =
     (let S = dropWhile isWhiteSpace inputString;
          (sign, S1) = stripSign S;
          (R, S2) = stripPrefix S1;
          Z = takeWhile (isRadixDigit R) S2
      in if Z = [] then NaN else Num (sign * int (digitsValue R 0 Z)))"

text \<open>
  \<open>localStorage.getItem('flappyKahoBest') || '0'\<close>: \<open>getItem\<close> gives \<open>null\<close> for a missing
  key, and both \<open>null\<close> and the empty string are falsy.
\<close>

definition orZero :: "string option \<Rightarrow> string" where
  "orZero v = (case v of None \<Rightarrow> ''0'' | Some str \<Rightarrow> if str = [] then ''0'' else str)"

definition initBestScore :: "string option \<Rightarrow> jsnum" where
  "initBestScore v = parseInt (orZero v)"

text \<open>The decimal string of an integer, as \<open>setItem\<close> stores a number.\<close>

fun natToString :: "nat \<Rightarrow> string" where
  "natToString n =
     (if n < 10 then [char_of (48 + n)]
      else natToString (n div 10) @ [char_of (48 + n mod 10)])"

definition toString :: "int \<Rightarrow> string" where
  "toString i = (if i < 0 then CHR ''-'' # natToString (nat (- i)) else natToString (nat i))"

subsection \<open>Initial state\<close>

text \<open>
  The attribute \<open>canvas.width\<close> is an unsigned long: a number assigned to it is truncated
  towards zero and taken modulo \<open>2^32\<close>. The pixel ratio is never zero, since
  \<open>window.devicePixelRatio || 1\<close> replaces a zero by one, so the divisions by \<open>dpr\<close> are
  divisions by a number that is not zero in every state that starts from \<open>initGame\<close>.
\<close>

definition toUint32 :: "real \<Rightarrow> real" where
  "toUint32 v = real_of_int ((if 0 \<le> v then \<lfloor>v\<rfloor> else \<lceil>v\<rceil>) mod 2 ^ 32)"

text \<open>\<open>a || b\<close> on numbers: \<open>0\<close> is falsy.\<close>

definition orNum :: "real \<Rightarrow> real \<Rightarrow> real" where
  "orNum a b = (if a = 0 then b else a)"

definition initGame :: "page \<Rightarrow> game" where
  "initGame pg =
     (let d = orNum (devicePixelRatio pg) 1;
          width = orNum (rectWidth pg) 320;
          height = orNum (rectHeight pg) 480
      in \<lparr> state = READY,
           frames = 0,
           lastTime = 0,
           score = 0,
           bestScore = initBestScore (storedBest pg),
           pipes = [],
           bird = \<lparr> bird_x = BIRD_X, bird_y = 150, velocity = 0,
                    radius = BIRD_SIZE / 2, rotation = 0 \<rparr>,
           prefersReducedMotion = reducedMotion pg,
           motionOverride = False,
           isTabActive = (\<not> documentHidden pg),
           dpr = d,
           spawnTimer = 0,
           bgOffsets = \<lparr> clouds = 0, hills = 0, trees = 0, ground = 0 \<rparr>,
           audioCtx = None,
           activeSounds = 0,
           soundTimers = 0,
           canvasWidth = toUint32 (width * d),
           canvasHeight = toUint32 (height * d),
           restartHidden = restartBtnHidden pg,
           overlayHidden = gameOverOverlayHidden pg,
           stored = storedBest pg \<rparr>)"

subsection \<open>Game over\<close>

text \<open>\<open>score > bestScore\<close>: a comparison with \<open>NaN\<close> is false.\<close>

definition js_gt :: "int \<Rightarrow> jsnum \<Rightarrow> bool" where
  "js_gt a b = (case b of NaN \<Rightarrow> False | Num n \<Rightarrow> a > n)"

definition gameOver :: "game \<Rightarrow> game" where
  "gameOver s =
     (let s1 = s\<lparr>state := GAME_OVER\<rparr>;
          s2 = (if js_gt (score s1) (bestScore s1)
                then s1\<lparr>bestScore := Num (score s1), stored := Some (toString (score s1))\<rparr>
                else s1)
      in s2\<lparr>overlayHidden := False, restartHidden := False\<rparr>)"

subsection \<open>Pause, sound and input\<close>

definition shouldPause :: "game \<Rightarrow> bool" where
  "shouldPause s =
     (if \<not> isTabActive s then True
      else if prefersReducedMotion s \<and> \<not> motionOverride s then True
      else False)"

text \<open>
  \<open>playScoreSound\<close> reads \<open>audioCtx.createOscillator\<close> with no check of \<open>audioCtx\<close>: on
  \<open>null\<close> that is a \<open>TypeError\<close>, thrown after \<open>activeSounds\<close> was incremented and before
  the timeout that decrements it was set.
\<close>

definition playScoreSound :: "game \<Rightarrow> (error \<times> game) + game" where
  "playScoreSound s =
     (if \<not> isTabActive s then Inr s
      else if activeSounds s \<ge> MAX_CONCURRENT_SOUNDS then Inr s
      else
        (let s1 = s\<lparr>activeSounds := activeSounds s + 1\<rparr>
         in case audioCtx s1 of
              None \<Rightarrow> Inl (TypeError, s1)
            | Some ctx \<Rightarrow> Inr (s1\<lparr>soundTimers := soundTimers s1 + 1\<rparr>)))"

definition resetGame :: "game \<Rightarrow> game" where
  "resetGame s =
     s\<lparr> state := READY,
        bird := (bird s)\<lparr>bird_y := 150, velocity := 0, rotation := 0\<rparr>,
        score := 0,
        pipes := [],
        spawnTimer := 0,
        frames := 0,
        overlayHidden := True,
        restartHidden := True \<rparr>"

definition restartGame :: "game \<Rightarrow> game" where
  "restartGame s =
     (let s1 = resetGame s;
          s2 = s1\<lparr>state := PLAYING\<rparr>
      in s2\<lparr>bird := (bird s2)\<lparr>velocity := JUMP\<rparr>\<rparr>)"

text \<open>
  The audio context is created on the first input that is not paused, and resumed when
  it is suspended. The constructor is taken to succeed and to give a running context, as
  it does inside an input handler; were it to throw, the handler would end before the
  state changes.
\<close>

definition handleInput :: "game \<Rightarrow> game" where
  "handleInput s =
     (if shouldPause s then s
      else
        (let s1 = (case audioCtx s of
                     None \<Rightarrow> s\<lparr>audioCtx := Some Running\<rparr>
                   | Some ctx \<Rightarrow> if ctx = Suspended then s\<lparr>audioCtx := Some Running\<rparr> else s)
         in if state s1 = READY then s1\<lparr>state := PLAYING\<rparr>
            else if state s1 = PLAYING then s1\<lparr>bird := (bird s1)\<lparr>velocity := JUMP\<rparr>\<rparr>
            else if state s1 = GAME_OVER then restartGame s1
            else s1))"

subsection \<open>The update step\<close>

text \<open>\<open>rnd\<close> is the value of \<open>Math.random()\<close>.\<close>

definition spawnPipe :: "real \<Rightarrow> game \<Rightarrow> game" where
  "spawnPipe rnd s =
     (let maxPos = canvasHeight s / dpr s - 50 - PIPE_GAP;
          minPos = 50;
          gapY = real_of_int \<lfloor>rnd * (maxPos - minPos + 1)\<rfloor> + minPos
      in s\<lparr>pipes := pipes s @ [\<lparr> pipe_x = canvasWidth s / dpr s, pipe_y = gapY, passed = False \<rparr>]\<rparr>)"

text \<open>\<open>if (dt > 100) dt = 16\<close>, the first statement of \<open>update\<close>.\<close>

definition capDt :: "real \<Rightarrow> real" where
  "capDt dt = (if dt > 100 then 16 else dt)"

definition frameScaler :: "real \<Rightarrow> real" where
  "frameScaler dt = dt / (1000 / 60)"

definition updateBird :: "real \<Rightarrow> bird_obj \<Rightarrow> bird_obj" where
  "updateBird scaler b =
     (let b1 = b\<lparr>velocity := velocity b + GRAVITY * scaler\<rparr>;
          b2 = b1\<lparr>bird_y := bird_y b1 + velocity b1 * scaler\<rparr>
      in if velocity b2 < 0 then b2\<lparr>rotation := - 25 * pi / 180\<rparr>
         else
           (let b3 = b2\<lparr>rotation := rotation b2 + 2 * pi / 180 * scaler\<rparr>
            in if rotation b3 > 90 * pi / 180 then b3\<lparr>rotation := 90 * pi / 180\<rparr> else b3))"

definition updateBackground :: "real \<Rightarrow> offsets \<Rightarrow> offsets" where
  "updateBackground scaler bg =
     bg\<lparr> clouds := clouds bg + PIPE_SPEED * 0.3 * scaler,
         hills := hills bg + PIPE_SPEED * 0.5 * scaler,
         trees := trees bg + PIPE_SPEED * 0.8 * scaler,
         ground := ground bg + PIPE_SPEED * scaler \<rparr>"

text \<open>
  The body of \<open>pipes.forEach\<close>. The pipes already visited are in \<open>visited\<close>, the pipes still
  to visit in the third argument; when the sound routine throws, the loop is left with
  the current pipe moved and marked and the later pipes untouched.
\<close>

fun forEachPipe :: "real \<Rightarrow> pipe_obj list \<Rightarrow> pipe_obj list \<Rightarrow> game \<Rightarrow> (error \<times> game) + game" where
  "forEachPipe scaler visited [] s = Inr (s\<lparr>pipes := visited\<rparr>)"
| "forEachPipe scaler visited (pipe # rest) s =
     (let p1 = pipe\<lparr>pipe_x := pipe_x pipe - PIPE_SPEED * scaler\<rparr>
      in if \<not> passed p1 \<and> pipe_x p1 + PIPE_WIDTH < bird_x (bird s) then
           (let s1 = s\<lparr>score := score s + 1\<rparr>;
                p2 = p1\<lparr>passed := True\<rparr>
            in case playScoreSound s1 of
                 Inl (e, s2) \<Rightarrow> Inl (e, s2\<lparr>pipes := visited @ p2 # rest\<rparr>)
               | Inr s2 \<Rightarrow> forEachPipe scaler (visited @ [p2]) rest s2)
         else forEachPipe scaler (visited @ [p1]) rest s)"

text \<open>
  The \<open>for\<close> loop of \<open>checkCollision\<close> over the pipes, which returns at the first pipe
  that is hit: the value says whether the loop called \<open>gameOver\<close>.
\<close>

fun pipeScan :: "real \<Rightarrow> real \<Rightarrow> real \<Rightarrow> real \<Rightarrow> pipe_obj list \<Rightarrow> bool" where
  "pipeScan birdLeft birdRight birdTop birdBottom [] = False"
| "pipeScan birdLeft birdRight birdTop birdBottom (pipe # rest) =
     (let pipeLeft = pipe_x pipe;
          pipeRight = pipe_x pipe + PIPE_WIDTH;
          gapTop = pipe_y pipe;
          gapBottom = pipe_y pipe + PIPE_GAP
      in if birdRight > pipeLeft \<and> birdLeft < pipeRight then
           (if birdTop < gapTop \<or> birdBottom > gapBottom then True
            else pipeScan birdLeft birdRight birdTop birdBottom rest)
         else pipeScan birdLeft birdRight birdTop birdBottom rest)"

definition checkCollision :: "game \<Rightarrow> game" where
  "checkCollision s =
     (let birdLeft = bird_x (bird s) - radius (bird s) + 4;
          birdRight = bird_x (bird s) + radius (bird s) - 4;
          birdTop = bird_y (bird s) - radius (bird s) + 4;
          birdBottom = bird_y (bird s) + radius (bird s) - 4;
          floorY = canvasHeight s / dpr s
      in if birdBottom \<ge> floorY \<or> birdTop \<le> 0 then gameOver s
         else if pipeScan birdLeft birdRight birdTop birdBottom (pipes s) then gameOver s
         else s)"

definition update :: "real \<Rightarrow> real \<Rightarrow> game \<Rightarrow> (error \<times> game) + game" where
  "update dt0 rnd s =
     (let dt = capDt dt0;
          scaler = frameScaler dt
      in if state s = PLAYING then
           (let s1 = s\<lparr>bird := updateBird scaler (bird s)\<rparr>;
                s2 = s1\<lparr>bgOffsets := updateBackground scaler (bgOffsets s1)\<rparr>;
                s3 = s2\<lparr>spawnTimer := spawnTimer s2 + dt\<rparr>;
                s4 = (if spawnTimer s3 > PIPE_SPAWN_RATE
                      then (spawnPipe rnd s3)\<lparr>spawnTimer := 0\<rparr> else s3)
            in case forEachPipe scaler [] (pipes s4) s4 of
                 Inl thrown \<Rightarrow> Inl thrown
               | Inr s5 \<Rightarrow>
                   Inr (checkCollision
                         (s5\<lparr>pipes := filter (\<lambda>pipe. pipe_x pipe + PIPE_WIDTH > - 10) (pipes s5)\<rparr>)))
         else if state s = READY then
           (let s1 = s\<lparr>frames := frames s + 1\<rparr>
            in Inr (s1\<lparr>bird := (bird s1)\<lparr>bird_y := 150 + sin (real (frames s1) * 0.05) * 5\<rparr>\<rparr>))
         else Inr s)"

definition gameLoop :: "real \<Rightarrow> real \<Rightarrow> game \<Rightarrow> (error \<times> game) + game" where
  "gameLoop timestamp rnd s =
     (if shouldPause s then Inr s
      else
        (let dt = timestamp - lastTime s;
             s1 = s\<lparr>lastTime := timestamp\<rparr>
         in update dt rnd s1))"

text \<open>The variables after a handler has run, whether it returned or threw.\<close>

definition after :: "(error \<times> game) + game \<Rightarrow> game" where
  "after res = (case res of Inl (e, s) \<Rightarrow> s | Inr s \<Rightarrow> s)"

definition threw :: "(error \<times> game) + game \<Rightarrow> bool" where
  "threw res = (case res of Inl thrown \<Rightarrow> True | Inr s \<Rightarrow> False)"

subsection \<open>Events\<close>

text \<open>
  What the browser can deliver to the script: the primary input (mouse down or touch on
  the canvas, or the space key), a click on the restart button, an animation frame with
  its time stamp and the random number a spawn in it would draw, a click on the button
  that overrides reduced motion, a visibility change, the timeout of a sound, and a
  resize of the window.
\<close>

datatype event =
    PrimaryInput
  | RestartClick
  | Frame real real
  | EnableMotion real
  | VisibilityChange bool real
  | SoundTimeout
  | Resize real real

definition fire :: "event \<Rightarrow> game \<Rightarrow> game" where
  "fire ev s =
     (case ev of
        PrimaryInput \<Rightarrow> handleInput s
      | RestartClick \<Rightarrow> restartGame s
      | Frame timestamp rnd \<Rightarrow> after (gameLoop timestamp rnd s)
      | EnableMotion now \<Rightarrow> s\<lparr>motionOverride := True, lastTime := now\<rparr>
      | VisibilityChange hidden now \<Rightarrow>
          (let s1 = s\<lparr>isTabActive := (\<not> hidden)\<rparr>
           in if isTabActive s1 \<and> \<not> shouldPause s1 then s1\<lparr>lastTime := now\<rparr> else s1)
      | SoundTimeout \<Rightarrow> s\<lparr>activeSounds := activeSounds s - 1, soundTimers := soundTimers s - 1\<rparr>
      | Resize width height \<Rightarrow>
          s\<lparr>canvasWidth := toUint32 (orNum width 320 * dpr s),
            canvasHeight := toUint32 (orNum height 480 * dpr s)\<rparr>)"

text \<open>
  Modelled from the spec: the markup and the stylesheet of the page are not part of the
  script. The restart affordance is visible from game over until the next reset, and a
  click reaches the button only while it is visible, that is, while the class \<open>hidden\<close>
  is not on it. A frame draws its random number from \<open>[0, 1)\<close>, and a sound timeout fires
  only when one is pending. Frames are allowed at any moment, which is more than the
  loop requests.
\<close>

definition enabled :: "event \<Rightarrow> game \<Rightarrow> bool" where
  "enabled ev s =
     (case ev of
        RestartClick \<Rightarrow> \<not> restartHidden s
      | Frame timestamp rnd \<Rightarrow> 0 \<le> rnd \<and> rnd < 1
      | SoundTimeout \<Rightarrow> soundTimers s > 0
      | _ \<Rightarrow> True)"

inductive reachable :: "game \<Rightarrow> game \<Rightarrow> bool" for s0 :: game where
  start: "reachable s0 s0"
| step: "reachable s0 s \<Longrightarrow> enabled ev s \<Longrightarrow> reachable s0 (fire ev s)"

subsection \<open>Auxiliary notions for the properties\<close>

text \<open>
  The variables as \<open>update\<close> has them when it reaches \<open>pipes.forEach\<close> in a
  \<open>PLAYING\<close> tick: the bird and the background moved, the spawn timer advanced and a
  pipe spawned when the timer ran out.
\<close>

definition beforePipes :: "real \<Rightarrow> real \<Rightarrow> game \<Rightarrow> game" where
  "beforePipes dt0 rnd s =
     (let dt = capDt dt0;
          scaler = frameScaler dt;
          s1 = s\<lparr>bird := updateBird scaler (bird s)\<rparr>;
          s2 = s1\<lparr>bgOffsets := updateBackground scaler (bgOffsets s1)\<rparr>;
          s3 = s2\<lparr>spawnTimer := spawnTimer s2 + dt\<rparr>
      in if spawnTimer s3 > PIPE_SPAWN_RATE then (spawnPipe rnd s3)\<lparr>spawnTimer := 0\<rparr> else s3)"

text \<open>What the callback of \<open>pipes.forEach\<close> does to the pipe it visits.\<close>

definition movePipe :: "real \<Rightarrow> real \<Rightarrow> pipe_obj \<Rightarrow> pipe_obj" where
  "movePipe scaler birdX pipe =
     (let p1 = pipe\<lparr>pipe_x := pipe_x pipe - PIPE_SPEED * scaler\<rparr>
      in if \<not> passed p1 \<and> pipe_x p1 + PIPE_WIDTH < birdX then p1\<lparr>passed := True\<rparr> else p1)"

text \<open>The flag of the pipe goes from false to true in this visit.\<close>

definition newlyPassed :: "real \<Rightarrow> real \<Rightarrow> pipe_obj \<Rightarrow> bool" where
  "newlyPassed scaler birdX pipe = (\<not> passed pipe \<and> passed (movePipe scaler birdX pipe))"

text \<open>
  The number of visits, in a run of ticks with the given scalers, in which the flag of
  one pipe goes from false to true.
\<close>

fun passCount :: "real list \<Rightarrow> real \<Rightarrow> pipe_obj \<Rightarrow> nat" where
  "passCount [] birdX pipe = 0"
| "passCount (scaler # scalers) birdX pipe =
     (if newlyPassed scaler birdX pipe then 1 else 0)
       + passCount scalers birdX (movePipe scaler birdX pipe)"

text \<open>The filter that removes the pipes that are off the screen.\<close>

definition onScreen :: "pipe_obj \<Rightarrow> bool" where
  "onScreen pipe = (pipe_x pipe + PIPE_WIDTH > - 10)"

text \<open>
  Two valuations of the variables agree on everything but the score, the pipes and the
  two counters of the sound manager: all that \<open>pipes.forEach\<close> can write.
\<close>

definition loopFrame :: "game \<Rightarrow> game \<Rightarrow> bool" where
  "loopFrame s s' =
     (state s' = state s \<and> frames s' = frames s \<and> lastTime s' = lastTime s
      \<and> bestScore s' = bestScore s \<and> bird s' = bird s
      \<and> prefersReducedMotion s' = prefersReducedMotion s \<and> motionOverride s' = motionOverride s
      \<and> isTabActive s' = isTabActive s \<and> dpr s' = dpr s \<and> spawnTimer s' = spawnTimer s
      \<and> bgOffsets s' = bgOffsets s \<and> audioCtx s' = audioCtx s
      \<and> canvasWidth s' = canvasWidth s \<and> canvasHeight s' = canvasHeight s
      \<and> restartHidden s' = restartHidden s \<and> overlayHidden s' = overlayHidden s
      \<and> stored s' = stored s)"

text \<open>
  Either the game has not left \<open>READY\<close> and the restart button is still hidden, or the
  audio context exists.
\<close>

definition audioInv :: "game \<Rightarrow> bool" where
  "audioInv s = ((state s = READY \<and> restartHidden s) \<or> audioCtx s \<noteq> None)"

text \<open>
  The height at which the bobbing of \<open>READY\<close> leaves the bird after \<open>n\<close> ticks.
\<close>

definition bobHeight :: "nat \<Rightarrow> real" where
  "bobHeight n = (if n = 0 then 150 else 150 + sin (real n * 0.05) * 5)"

text \<open>
  The bird keeps its horizontal position and its radius, and as long as the game is in
  \<open>READY\<close> it has no velocity, no rotation and the height of the bobbing.
\<close>

definition readyInv :: "game \<Rightarrow> bool" where
  "readyInv s =
     (bird_x (bird s) = BIRD_X \<and> radius (bird s) = BIRD_SIZE / 2
      \<and> (state s \<noteq> READY
          \<or> (velocity (bird s) = 0 \<and> rotation (bird s) = 0
              \<and> bird_y (bird s) = bobHeight (frames s))))"

subsection \<open>A page to evaluate on\<close>

text \<open>
  A first visit with the canvas at the size the physics is tuned for: nothing stored,
  motion allowed, the tab visible, pixel ratio 1, a layout box of 320 by 480, the restart
  button and the overlay hidden.
\<close>

definition page0 :: page where
  "page0 =
     \<lparr> storedBest = None, reducedMotion = False, documentHidden = False,
       devicePixelRatio = 1, rectWidth = 320, rectHeight = 480,
       restartBtnHidden = True, gameOverOverlayHidden = True \<rparr>"

text \<open>
  The same page in the middle of a game, with one pipe ahead of the bird.
\<close>

definition playing0 :: game where
  "playing0 =
     (initGame page0)\<lparr>state := PLAYING,
       pipes := [\<lparr> pipe_x = 200, pipe_y = 100, passed = False \<rparr>]\<rparr>"

text \<open>
  A game in which the pipe is about to pass the bird, with the audio context there.
\<close>

definition scoring0 :: game where
  "scoring0 =
     (initGame page0)\<lparr>state := PLAYING, audioCtx := Some Running,
       pipes := [\<lparr> pipe_x = - 1, pipe_y = 100, passed = False \<rparr>]\<rparr>"

subsection \<open>Runs\<close>

text \<open>The variables after a list of events, and whether each event could occur.\<close>

fun run :: "event list \<Rightarrow> game \<Rightarrow> game" where
  "run [] s = s"
| "run (ev # evs) s = run evs (fire ev s)"

fun allEnabled :: "event list \<Rightarrow> game \<Rightarrow> bool" where
  "allEnabled [] s = True"
| "allEnabled (ev # evs) s = (enabled ev s \<and> allEnabled evs (fire ev s))"

text \<open>
  A game that is started and left alone: the bird falls for eight frames of 100 ms and
  reaches the floor. Then the tab is hidden.
\<close>

definition fallTrace :: "event list" where
  "fallTrace =
     [PrimaryInput, Frame 100 0, Frame 200 0, Frame 300 0, Frame 400 0, Frame 500 0,
      Frame 600 0, Frame 700 0, Frame 800 0]"

definition fallen :: game where
  "fallen = run fallTrace (initGame page0)"

definition fallenHidden :: game where
  "fallenHidden = fire (VisibilityChange True 900) fallen"

section \<open>Properties\<close>

lemmas PHYSICS = GRAVITY_def JUMP_def PIPE_SPEED_def PIPE_SPAWN_RATE_def PIPE_WIDTH_def
  PIPE_GAP_def BIRD_SIZE_def BIRD_X_def

lemmas parse_defs = initBestScore_def orZero_def parseInt_def isWhiteSpace_def stripSign_def
  stripPrefix_def isRadixDigit_def digitValue_def

subsection \<open>The best score read at load\<close>

lemma initBestScore_absent: "initBestScore None = Num 0"
  by (simp add: parse_defs)

lemma initBestScore_empty: "initBestScore (Some []) = Num 0"
  by (simp add: parse_defs)

lemma initBestScore_decimal: "initBestScore (Some ''17'') = Num 17"
  by (simp add: parse_defs)

lemma initGame_reads_storage: "bestScore (initGame pg) = initBestScore (storedBest pg)"
  by (simp add: initGame_def Let_def)

text \<open>
  Claim C7. At load the best score is read from storage, and an absent or malformed
  stored value is to count as zero. The script gets zero for an absent and for an empty
  value, through \<open>|| '0'\<close>, but a stored text with no leading digits, here \<open>abc\<close>,
  goes to \<open>parseInt\<close> as it is and the best score in memory is \<open>NaN\<close>, not zero.
\<close>

theorem bestScore_unparseable_is_NaN:
  "bestScore (initGame (page0\<lparr>storedBest := Some ''abc''\<rparr>)) = NaN
   \<and> bestScore (initGame (page0\<lparr>storedBest := Some ''abc''\<rparr>)) \<noteq> Num 0"
  by (simp add: initGame_reads_storage page0_def parse_defs)

text \<open>With \<open>NaN\<close> in memory no score ever replaces the best score.\<close>

lemma gameOver_keeps_NaN: "bestScore s = NaN \<Longrightarrow> bestScore (gameOver s) = NaN"
  by (simp add: gameOver_def Let_def js_gt_def)

lemmas eval_defs = initGame_def page0_def initBestScore_absent orNum_def toUint32_def Let_def
  PHYSICS

subsection \<open>The best score at game over\<close>

text \<open>
  Claim C2. After \<open>gameOver\<close> the best score is the maximum of the best score before and
  the score of the session; it changes exactly when the score is strictly greater, and
  then to a greater value. A best score that is \<open>NaN\<close> stays \<open>NaN\<close>, which is also what
  \<open>Math.max\<close> gives on \<open>NaN\<close>.
\<close>

theorem gameOver_bestScore:
  "bestScore (gameOver s) = (case bestScore s of NaN \<Rightarrow> NaN | Num b \<Rightarrow> Num (max b (score s)))
   \<and> ((bestScore (gameOver s) \<noteq> bestScore s) = js_gt (score s) (bestScore s))"
  by (auto simp: gameOver_def Let_def js_gt_def split: jsnum.splits)

theorem gameOver_bestScore_witness:
  "bestScore (gameOver ((initGame page0)\<lparr>score := 7, bestScore := Num 5\<rparr>)) = Num 7
   \<and> bestScore (gameOver ((initGame page0)\<lparr>score := 3, bestScore := Num 5\<rparr>)) = Num 5"
  using gameOver_bestScore [of "(initGame page0)\<lparr>score := 7, bestScore := Num 5\<rparr>"]
    gameOver_bestScore [of "(initGame page0)\<lparr>score := 3, bestScore := Num 5\<rparr>"]
  by simp

lemma gameOver_stores:
  "js_gt (score s) (bestScore s) \<Longrightarrow> stored (gameOver s) = Some (toString (score s))"
  by (simp add: gameOver_def Let_def)

lemma gameOver_state [simp]: "state (gameOver s) = GAME_OVER"
  by (simp add: gameOver_def Let_def)

subsection \<open>The loop over the pipes\<close>

lemma after_Inl [simp]: "after (Inl (e, s)) = s"
  by (simp add: after_def)

lemma after_Inr [simp]: "after (Inr s) = s"
  by (simp add: after_def)

lemma threw_Inl [simp]: "threw (Inl thrown)"
  by (simp add: threw_def)

lemma threw_Inr [simp]: "\<not> threw (Inr s)"
  by (simp add: threw_def)

lemma playScoreSound_frame: "loopFrame s (after (playScoreSound s))"
  by (simp add: playScoreSound_def after_def Let_def loopFrame_def split: option.splits)

lemma playScoreSound_score: "score (after (playScoreSound s)) = score s"
  by (simp add: playScoreSound_def after_def Let_def split: option.splits)

text \<open>The sound routine throws exactly when it reaches the audio context and finds none.\<close>

lemma playScoreSound_threw:
  "threw (playScoreSound s) =
     (isTabActive s \<and> activeSounds s < MAX_CONCURRENT_SOUNDS \<and> audioCtx s = None)"
  by (auto simp: playScoreSound_def threw_def Let_def split: option.splits)

lemma forEachPipe_frame: "loopFrame s (after (forEachPipe scaler visited todo s))"
proof (induction todo arbitrary: visited s)
  case Nil
  show ?case by (simp add: loopFrame_def)
next
  case (Cons pipe rest)
  let ?p1 = "pipe\<lparr>pipe_x := pipe_x pipe - PIPE_SPEED * scaler\<rparr>"
  let ?s1 = "s\<lparr>score := score s + 1\<rparr>"
  show ?case
  proof (cases "\<not> passed pipe \<and> pipe_x pipe - PIPE_SPEED * scaler + PIPE_WIDTH < bird_x (bird s)")
    case False
    then show ?thesis
      using Cons.IH[where visited = "visited @ [?p1]" and s = s] by (auto simp: Let_def)
  next
    case True
    have fr: "loopFrame ?s1 (after (playScoreSound ?s1))" by (rule playScoreSound_frame)
    show ?thesis
    proof (cases "playScoreSound ?s1")
      case (Inl thrown)
      obtain e s2 where th: "thrown = (e, s2)" by (cases thrown)
      from fr Inl th have "loopFrame ?s1 s2" by simp
      then show ?thesis using True Inl th by (simp add: Let_def loopFrame_def)
    next
      case (Inr s2)
      from fr Inr have "loopFrame ?s1 s2" by simp
      moreover have
        "loopFrame s2 (after (forEachPipe scaler (visited @ [?p1\<lparr>passed := True\<rparr>]) rest s2))"
        by (rule Cons.IH)
      ultimately show ?thesis using True Inr by (simp add: Let_def loopFrame_def)
    qed
  qed
qed

text \<open>
  When the loop returns, every pipe was visited once, and the score grew by the number
  of pipes whose flag went from false to true.
\<close>

lemma forEachPipe_Inr:
  "forEachPipe scaler visited todo s = Inr s' \<Longrightarrow>
     pipes s' = visited @ map (movePipe scaler (bird_x (bird s))) todo
     \<and> score s' = score s + int (length (filter (newlyPassed scaler (bird_x (bird s))) todo))"
proof (induction todo arbitrary: visited s)
  case Nil
  then show ?case by auto
next
  case (Cons pipe rest)
  let ?p1 = "pipe\<lparr>pipe_x := pipe_x pipe - PIPE_SPEED * scaler\<rparr>"
  let ?s1 = "s\<lparr>score := score s + 1\<rparr>"
  show ?case
  proof (cases "\<not> passed pipe \<and> pipe_x pipe - PIPE_SPEED * scaler + PIPE_WIDTH < bird_x (bird s)")
    case False
    with Cons.prems have "forEachPipe scaler (visited @ [?p1]) rest s = Inr s'"
      by (auto simp: Let_def)
    from Cons.IH[OF this] False show ?thesis
      by (auto simp: movePipe_def newlyPassed_def Let_def)
  next
    case True
    show ?thesis
    proof (cases "playScoreSound ?s1")
      case (Inl thrown)
      then show ?thesis using True Cons.prems by (auto simp: Let_def split: prod.splits)
    next
      case (Inr s2)
      have fr: "loopFrame ?s1 s2" using playScoreSound_frame[of ?s1] Inr by simp
      have sc: "score s2 = score s + 1" using playScoreSound_score[of ?s1] Inr by simp
      from Cons.prems True Inr
      have "forEachPipe scaler (visited @ [?p1\<lparr>passed := True\<rparr>]) rest s2 = Inr s'"
        by (simp add: Let_def)
      from Cons.IH[OF this] fr sc True show ?thesis
        by (auto simp: movePipe_def newlyPassed_def Let_def loopFrame_def)
    qed
  qed
qed

text \<open>With an audio context the loop never throws.\<close>

lemma forEachPipe_threw:
  "audioCtx s \<noteq> None \<Longrightarrow> \<not> threw (forEachPipe scaler visited todo s)"
proof (induction todo arbitrary: visited s)
  case Nil
  then show ?case by simp
next
  case (Cons pipe rest)
  let ?p1 = "pipe\<lparr>pipe_x := pipe_x pipe - PIPE_SPEED * scaler\<rparr>"
  let ?s1 = "s\<lparr>score := score s + 1\<rparr>"
  show ?case
  proof (cases "\<not> passed pipe \<and> pipe_x pipe - PIPE_SPEED * scaler + PIPE_WIDTH < bird_x (bird s)")
    case False
    then show ?thesis
      using Cons.IH[OF Cons.prems, where visited = "visited @ [?p1]"] by (auto simp: Let_def)
  next
    case True
    have "\<not> threw (playScoreSound ?s1)" using Cons.prems by (simp add: playScoreSound_threw)
    then obtain s2 where Inr: "playScoreSound ?s1 = Inr s2"
      by (cases "playScoreSound ?s1") auto
    have "loopFrame ?s1 s2" using playScoreSound_frame[of ?s1] Inr by simp
    then have "audioCtx s2 \<noteq> None" using Cons.prems by (simp add: loopFrame_def)
    from Cons.IH[OF this] True Inr show ?thesis by (simp add: Let_def)
  qed
qed

subsection \<open>Collision\<close>

lemma pipeScan_iff:
  "pipeScan l r t b ps =
     (\<exists>p \<in> set ps. r > pipe_x p \<and> l < pipe_x p + PIPE_WIDTH \<and> (t < pipe_y p \<or> b > pipe_y p + PIPE_GAP))"
  by (induction ps) (auto simp: Let_def)

lemma pipeScan_first_hit:
  "r > pipe_x p \<and> l < pipe_x p + PIPE_WIDTH \<and> (t < pipe_y p \<or> b > pipe_y p + PIPE_GAP) \<Longrightarrow>
   pipeScan l r t b (ps @ p # qs) = pipeScan l r t b (ps @ [p])"
  by (induction ps) (auto simp: Let_def)

text \<open>
  Claim C1. In a \<open>PLAYING\<close> tick the collision check ends the game exactly when, for the
  box of the bird shrunk by 4 on every side, the bottom edge is at or below the floor, or
  the top edge is at or above the ceiling, or some pipe overlaps the box horizontally
  while the top edge is above the gap or the bottom edge below it. The check calls
  \<open>gameOver\<close> once and changes nothing otherwise. The bounds are tested before the
  pipes, and the loop over the pipes returns at the first hit (\<open>pipeScan_first_hit\<close>:
  the pipes after it do not enter the result).
\<close>

theorem checkCollision_game_over_iff:
  "state s = PLAYING \<Longrightarrow>
   (let birdLeft = bird_x (bird s) - radius (bird s) + 4;
        birdRight = bird_x (bird s) + radius (bird s) - 4;
        birdTop = bird_y (bird s) - radius (bird s) + 4;
        birdBottom = bird_y (bird s) + radius (bird s) - 4;
        floorY = canvasHeight s / dpr s;
        collision =
          (birdBottom \<ge> floorY \<or> birdTop \<le> 0
           \<or> (\<exists>pipe \<in> set (pipes s).
                 birdRight > pipe_x pipe \<and> birdLeft < pipe_x pipe + PIPE_WIDTH
                 \<and> (birdTop < pipe_y pipe \<or> birdBottom > pipe_y pipe + PIPE_GAP)))
    in (state (checkCollision s) = GAME_OVER) = collision
       \<and> checkCollision s = (if collision then gameOver s else s))"
  by (auto simp: checkCollision_def Let_def pipeScan_iff gameOver_state)

theorem checkCollision_witness:
  "state playing0 = PLAYING \<and> state (checkCollision playing0) = PLAYING
   \<and> state (checkCollision (playing0\<lparr>bird := (bird playing0)\<lparr>bird_y := 470\<rparr>\<rparr>)) = GAME_OVER
   \<and> state (checkCollision (playing0\<lparr>pipes := [\<lparr> pipe_x = 40, pipe_y = 200, passed = False \<rparr>]\<rparr>)) = GAME_OVER"
  using checkCollision_game_over_iff [of playing0]
    checkCollision_game_over_iff [of "playing0\<lparr>bird := (bird playing0)\<lparr>bird_y := 470\<rparr>\<rparr>"]
    checkCollision_game_over_iff [of "playing0\<lparr>pipes := [\<lparr> pipe_x = 40, pipe_y = 200, passed = False \<rparr>]\<rparr>"]
  by (simp add: playing0_def eval_defs gameOver_state)

subsection \<open>What a tick leaves alone\<close>

lemma gameOver_fields:
  "bird (gameOver s) = bird s" "pipes (gameOver s) = pipes s" "score (gameOver s) = score s"
  "bgOffsets (gameOver s) = bgOffsets s" "audioCtx (gameOver s) = audioCtx s"
  "frames (gameOver s) = frames s" "isTabActive (gameOver s) = isTabActive s"
  "prefersReducedMotion (gameOver s) = prefersReducedMotion s"
  "motionOverride (gameOver s) = motionOverride s"
  "restartHidden (gameOver s) = False"
  by (simp_all add: gameOver_def Let_def)

lemma checkCollision_cases: "checkCollision s = s \<or> checkCollision s = gameOver s"
  by (simp add: checkCollision_def Let_def)

lemma checkCollision_fields:
  "bird (checkCollision s) = bird s" "pipes (checkCollision s) = pipes s"
  "score (checkCollision s) = score s" "bgOffsets (checkCollision s) = bgOffsets s"
  "audioCtx (checkCollision s) = audioCtx s" "frames (checkCollision s) = frames s"
  using checkCollision_cases[of s] by (auto simp: gameOver_fields)

lemma update_playing:
  "state s = PLAYING \<Longrightarrow>
   update dt rnd s =
     (case forEachPipe (frameScaler (capDt dt)) [] (pipes (beforePipes dt rnd s)) (beforePipes dt rnd s) of
        Inl thrown \<Rightarrow> Inl thrown
      | Inr s5 \<Rightarrow> Inr (checkCollision (s5\<lparr>pipes := filter onScreen (pipes s5)\<rparr>)))"
  by (simp add: update_def beforePipes_def Let_def onScreen_def[abs_def] cong: sum.case_cong)

lemma beforePipes_fields:
  "bird (beforePipes dt rnd s) = updateBird (frameScaler (capDt dt)) (bird s)"
  "bgOffsets (beforePipes dt rnd s) = updateBackground (frameScaler (capDt dt)) (bgOffsets s)"
  "state (beforePipes dt rnd s) = state s" "audioCtx (beforePipes dt rnd s) = audioCtx s"
  "score (beforePipes dt rnd s) = score s" "restartHidden (beforePipes dt rnd s) = restartHidden s"
  "pipes (beforePipes dt rnd s) =
     (if spawnTimer s + capDt dt > PIPE_SPAWN_RATE then pipes (spawnPipe rnd s) else pipes s)"
  by (simp_all add: beforePipes_def Let_def spawnPipe_def)

lemma update_playing_bird:
  assumes "state s = PLAYING"
  shows "bird (after (update dt rnd s)) = updateBird (frameScaler (capDt dt)) (bird s)"
proof -
  let ?b = "beforePipes dt rnd s"
  let ?r = "forEachPipe (frameScaler (capDt dt)) [] (pipes ?b) ?b"
  have fr: "loopFrame ?b (after ?r)" by (rule forEachPipe_frame)
  show ?thesis
  proof (cases ?r)
    case (Inl thrown)
    obtain e s' where "thrown = (e, s')" by (cases thrown)
    with Inl fr show ?thesis using assms
      by (simp add: update_playing loopFrame_def beforePipes_fields)
  next
    case (Inr s5)
    with fr show ?thesis using assms
      by (simp add: update_playing loopFrame_def beforePipes_fields checkCollision_fields)
  qed
qed

lemma update_playing_bgOffsets:
  assumes "state s = PLAYING"
  shows "bgOffsets (after (update dt rnd s)) = updateBackground (frameScaler (capDt dt)) (bgOffsets s)"
proof -
  let ?b = "beforePipes dt rnd s"
  let ?r = "forEachPipe (frameScaler (capDt dt)) [] (pipes ?b) ?b"
  have fr: "loopFrame ?b (after ?r)" by (rule forEachPipe_frame)
  show ?thesis
  proof (cases ?r)
    case (Inl thrown)
    obtain e s' where "thrown = (e, s')" by (cases thrown)
    with Inl fr show ?thesis using assms
      by (simp add: update_playing loopFrame_def beforePipes_fields)
  next
    case (Inr s5)
    with fr show ?thesis using assms
      by (simp add: update_playing loopFrame_def beforePipes_fields checkCollision_fields)
  qed
qed

subsection \<open>The time step\<close>

lemma capDt_bounds: "0 \<le> dt \<Longrightarrow> 0 \<le> capDt dt \<and> capDt dt \<le> 100"
  by (simp add: capDt_def)

lemma frameScaler_bounds: "0 \<le> dt \<Longrightarrow> 0 \<le> frameScaler (capDt dt) \<and> frameScaler (capDt dt) \<le> 6"
  using capDt_bounds[of dt] by (simp add: frameScaler_def)

lemma updateBird_velocity: "velocity (updateBird scaler b) = velocity b + GRAVITY * scaler"
  by (simp add: updateBird_def Let_def)

lemma updateBird_y: "bird_y (updateBird scaler b) = bird_y b + (velocity b + GRAVITY * scaler) * scaler"
  by (simp add: updateBird_def Let_def)

text \<open>
  Claim C5. For every \<open>dt \<ge> 0\<close> the step that \<open>update\<close> integrates with is 16 when
  \<open>dt\<close> is above 100 and \<open>dt\<close> itself otherwise. The velocity grows by the gravity times
  the scaler of that step and the position by the new velocity times the scaler, so in
  one tick the velocity grows by at most 1.5 and the position moves by at most six times
  the new speed.
\<close>

theorem update_caps_dt:
  "state s = PLAYING \<Longrightarrow> 0 \<le> dt \<Longrightarrow>
   (let s' = after (update dt rnd s);
        step = capDt dt;
        scaler = step / (1000 / 60)
    in step = (if dt > 100 then 16 else dt)
       \<and> velocity (bird s') = velocity (bird s) + GRAVITY * scaler
       \<and> bird_y (bird s') = bird_y (bird s) + velocity (bird s') * scaler
       \<and> 0 \<le> velocity (bird s') - velocity (bird s)
       \<and> velocity (bird s') - velocity (bird s) \<le> 1.5
       \<and> \<bar>bird_y (bird s') - bird_y (bird s)\<bar> \<le> 6 * \<bar>velocity (bird s')\<bar>)"
proof -
  assume pl: "state s = PLAYING" and nn: "0 \<le> dt"
  let ?sc = "frameScaler (capDt dt)"
  have b: "0 \<le> ?sc" "?sc \<le> 6" using frameScaler_bounds[OF nn] by auto
  have bird: "bird (after (update dt rnd s)) = updateBird ?sc (bird s)"
    by (rule update_playing_bird[OF pl])
  have v: "velocity (updateBird ?sc (bird s)) = velocity (bird s) + GRAVITY * ?sc"
    by (rule updateBird_velocity)
  have y: "bird_y (updateBird ?sc (bird s)) = bird_y (bird s) + velocity (updateBird ?sc (bird s)) * ?sc"
    by (simp add: updateBird_y updateBird_velocity)
  have d1: "0 \<le> GRAVITY * ?sc" "GRAVITY * ?sc \<le> 1.5" using b by (simp_all add: GRAVITY_def)
  have d2: "\<bar>velocity (updateBird ?sc (bird s)) * ?sc\<bar> \<le> 6 * \<bar>velocity (updateBird ?sc (bird s))\<bar>"
  proof -
    have "\<bar>velocity (updateBird ?sc (bird s)) * ?sc\<bar> = \<bar>velocity (updateBird ?sc (bird s))\<bar> * ?sc"
      using b by (simp add: abs_mult)
    also have "\<dots> \<le> \<bar>velocity (updateBird ?sc (bird s))\<bar> * 6"
      using b by (intro mult_left_mono) auto
    finally show ?thesis by simp
  qed
  show ?thesis
    unfolding Let_def bird
    using v y d1 d2 by (simp add: capDt_def frameScaler_def)
qed

theorem update_caps_dt_witness:
  "velocity (bird (after (update 5000 0 playing0))) = 0.24
   \<and> bird_y (bird (after (update 5000 0 playing0))) = 150.2304
   \<and> velocity (bird (after (update 50 0 playing0))) = 0.75"
  using update_caps_dt [of playing0 5000 0] update_caps_dt [of playing0 50 0]
  by (simp add: playing0_def eval_defs capDt_def)

subsection \<open>A game that ends on the floor\<close>

lemma reachable_run: "reachable s0 s \<Longrightarrow> allEnabled evs s \<Longrightarrow> reachable s0 (run evs s)"
  by (induction evs arbitrary: s) (auto intro: reachable.step)

lemmas tick_defs = fire_def handleInput_def shouldPause_def gameLoop_def update_def capDt_def
  frameScaler_def updateBird_def updateBackground_def checkCollision_def after_def gameOver_def
  js_gt_def

lemma fallen_eq:
  "fallen =
     \<lparr> state = GAME_OVER, frames = 0, lastTime = 800, score = 0, bestScore = Num 0, pipes = [],
       bird = \<lparr> bird_x = 50, bird_y = 474, velocity = 12, radius = 15, rotation = pi / 2 \<rparr>,
       prefersReducedMotion = False, motionOverride = False, isTabActive = True, dpr = 1,
       spawnTimer = 800,
       bgOffsets = \<lparr> clouds = 144 / 5, hills = 48, trees = 384 / 5, ground = 96 \<rparr>,
       audioCtx = Some Running, activeSounds = 0, soundTimers = 0,
       canvasWidth = 320, canvasHeight = 480, restartHidden = False, overlayHidden = False,
       stored = None \<rparr>"
  by (simp add: fallen_def fallTrace_def tick_defs eval_defs)

lemma fallen_reachable: "reachable (initGame page0) fallen"
  unfolding fallen_def
  by (rule reachable_run[OF reachable.start]) (simp add: fallTrace_def enabled_def)

lemma fallenHidden_reachable: "reachable (initGame page0) fallenHidden"
  unfolding fallenHidden_def
  by (rule reachable.step[OF fallen_reachable]) (simp add: enabled_def)

subsection \<open>Parallax\<close>

text \<open>
  Claim C8, as stated, asks every background layer to advance more slowly than the
  pipes. The ground advances by \<open>PIPE_SPEED * scaler\<close>, exactly as far as the pipes move:
  in a tick of 16 ms the ground is not slower than the pipe. And in a tick with a time
  step of zero, which a second frame callback with the same time stamp has, nothing
  moves, so no layer is slower than another.
\<close>

theorem ground_as_fast_as_pipes:
  "state playing0 = PLAYING
   \<and> \<not> (ground (bgOffsets (after (update 16 0 playing0))) - ground (bgOffsets playing0)
        < pipe_x (hd (pipes playing0)) - pipe_x (hd (pipes (after (update 16 0 playing0)))))
   \<and> \<not> (clouds (bgOffsets (after (update 0 0 playing0))) - clouds (bgOffsets playing0)
        < hills (bgOffsets (after (update 0 0 playing0))) - hills (bgOffsets playing0))"
  by (simp add: playing0_def eval_defs update_def capDt_def frameScaler_def spawnPipe_def
      updateBackground_def checkCollision_def updateBird_def)

text \<open>
  Claim C8, amended. In a \<open>PLAYING\<close> tick with a positive time step the layers advance
  in the strict order clouds, hills, trees, ground, and the ground advances exactly as far
  as every pipe moves to the left, so no layer is faster than the pipes.
\<close>

theorem parallax_order:
  "state s = PLAYING \<Longrightarrow> 0 < dt \<Longrightarrow>
   (let s' = after (update dt rnd s);
        scaler = frameScaler (capDt dt);
        cloudsStep = clouds (bgOffsets s') - clouds (bgOffsets s);
        hillsStep = hills (bgOffsets s') - hills (bgOffsets s);
        treesStep = trees (bgOffsets s') - trees (bgOffsets s);
        groundStep = ground (bgOffsets s') - ground (bgOffsets s);
        pipeStep = pipe_x pipe - pipe_x (movePipe scaler (bird_x (bird s)) pipe)
    in 0 < cloudsStep \<and> cloudsStep < hillsStep \<and> hillsStep < treesStep \<and> treesStep < groundStep
       \<and> groundStep = pipeStep \<and> pipeStep = PIPE_SPEED * scaler)"
proof -
  assume pl: "state s = PLAYING" and pos: "0 < dt"
  have "0 < capDt dt" using pos by (simp add: capDt_def)
  then have sc: "0 < frameScaler (capDt dt)" by (simp add: frameScaler_def)
  show ?thesis
    using sc by (simp add: Let_def update_playing_bgOffsets[OF pl] updateBackground_def movePipe_def PIPE_SPEED_def)
qed

theorem parallax_order_witness:
  "clouds (bgOffsets (after (update 16 0 playing0))) - clouds (bgOffsets playing0) = 0.576
   \<and> ground (bgOffsets (after (update 16 0 playing0))) - ground (bgOffsets playing0) = 1.92"
  using parallax_order [of playing0 16 0 "hd (pipes playing0)"]
  by (simp add: playing0_def eval_defs capDt_def frameScaler_def update_playing_bgOffsets
      updateBackground_def)

subsection \<open>The state after a tick\<close>

lemma update_playing_cases:
  assumes "state s = PLAYING"
  obtains s5 where "loopFrame (beforePipes dt rnd s) s5"
    and "after (update dt rnd s) = s5
         \<or> after (update dt rnd s) = checkCollision (s5\<lparr>pipes := filter onScreen (pipes s5)\<rparr>)"
proof -
  let ?b = "beforePipes dt rnd s"
  let ?r = "forEachPipe (frameScaler (capDt dt)) [] (pipes ?b) ?b"
  have fr: "loopFrame ?b (after ?r)" by (rule forEachPipe_frame)
  show ?thesis
  proof (cases ?r)
    case (Inl thrown)
    obtain e s' where "thrown = (e, s')" by (cases thrown)
    with Inl have "after (update dt rnd s) = after ?r" using assms by (simp add: update_playing)
    with fr that show ?thesis by blast
  next
    case (Inr s5)
    then have "after (update dt rnd s) = checkCollision ((after ?r)\<lparr>pipes := filter onScreen (pipes (after ?r))\<rparr>)"
      using assms by (simp add: update_playing)
    with fr that show ?thesis by blast
  qed
qed

lemma checkCollision_more_fields:
  "audioCtx (checkCollision s) = audioCtx s"
  "isTabActive (checkCollision s) = isTabActive s"
  "prefersReducedMotion (checkCollision s) = prefersReducedMotion s"
  "motionOverride (checkCollision s) = motionOverride s"
  "state s \<noteq> READY \<Longrightarrow> state (checkCollision s) \<noteq> READY"
  using checkCollision_cases[of s] by (auto simp: gameOver_fields)

lemma update_audioCtx: "audioCtx (after (update dt rnd s)) = audioCtx s"
proof (cases "state s")
  case READY
  then show ?thesis by (simp add: update_def Let_def)
next
  case PLAYING
  from PLAYING obtain s5 where fr: "loopFrame (beforePipes dt rnd s) s5"
    and ca: "after (update dt rnd s) = s5
         \<or> after (update dt rnd s) = checkCollision (s5\<lparr>pipes := filter onScreen (pipes s5)\<rparr>)"
    by (rule update_playing_cases)
  from fr have "audioCtx s5 = audioCtx s" by (simp add: loopFrame_def beforePipes_fields)
  with ca show ?thesis by (auto simp: checkCollision_more_fields)
next
  case GAME_OVER
  then show ?thesis by (simp add: update_def Let_def)
qed

lemma update_not_ready:
  assumes "state s \<noteq> READY"
  shows "state (after (update dt rnd s)) \<noteq> READY"
proof (cases "state s")
  case READY
  with assms show ?thesis by simp
next
  case PLAYING
  from PLAYING obtain s5 where fr: "loopFrame (beforePipes dt rnd s) s5"
    and ca: "after (update dt rnd s) = s5
         \<or> after (update dt rnd s) = checkCollision (s5\<lparr>pipes := filter onScreen (pipes s5)\<rparr>)"
    by (rule update_playing_cases)
  from fr PLAYING have st: "state s5 = PLAYING" by (simp add: loopFrame_def beforePipes_fields)
  then have "state (checkCollision (s5\<lparr>pipes := filter onScreen (pipes s5)\<rparr>)) \<noteq> READY"
    by (intro checkCollision_more_fields) simp
  with ca st show ?thesis by auto
next
  case GAME_OVER
  then show ?thesis by (simp add: update_def Let_def)
qed

lemma update_ready:
  "state s = READY \<Longrightarrow>
   update dt rnd s =
     Inr (s\<lparr>frames := frames s + 1,
           bird := (bird s)\<lparr>bird_y := 150 + sin (real (frames s + 1) * 0.05) * 5\<rparr>\<rparr>)"
  by (simp add: update_def Let_def)

lemma update_threw:
  assumes "state s = PLAYING \<longrightarrow> audioCtx s \<noteq> None"
  shows "\<not> threw (update dt rnd s)"
proof (cases "state s")
  case READY
  then show ?thesis by (simp add: update_ready)
next
  case PLAYING
  let ?b = "beforePipes dt rnd s"
  let ?r = "forEachPipe (frameScaler (capDt dt)) [] (pipes ?b) ?b"
  from PLAYING assms have "audioCtx ?b \<noteq> None" by (simp add: beforePipes_fields)
  then have "\<not> threw ?r" by (rule forEachPipe_threw)
  then obtain s5 where "?r = Inr s5" by (cases ?r) auto
  then show ?thesis using PLAYING by (simp add: update_playing)
next
  case GAME_OVER
  then show ?thesis by (simp add: update_def Let_def)
qed

lemma updateBird_x [simp]: "bird_x (updateBird scaler b) = bird_x b"
  by (simp add: updateBird_def Let_def)

lemma updateBird_radius [simp]: "radius (updateBird scaler b) = radius b"
  by (simp add: updateBird_def Let_def)

lemma gameLoop_after:
  "after (gameLoop timestamp rnd s) =
     (if shouldPause s then s else after (update (timestamp - lastTime s) rnd (s\<lparr>lastTime := timestamp\<rparr>)))"
  by (simp add: gameLoop_def Let_def)

text \<open>The pixel ratio is never written, and it is not zero.\<close>

lemma update_dpr: "dpr (after (update dt rnd s)) = dpr s"
proof (cases "state s")
  case READY
  then show ?thesis by (simp add: update_ready)
next
  case PLAYING
  from PLAYING obtain s5 where fr: "loopFrame (beforePipes dt rnd s) s5"
    and ca: "after (update dt rnd s) = s5
         \<or> after (update dt rnd s) = checkCollision (s5\<lparr>pipes := filter onScreen (pipes s5)\<rparr>)"
    by (rule update_playing_cases)
  have "dpr (beforePipes dt rnd s) = dpr s" by (simp add: beforePipes_def Let_def spawnPipe_def)
  with fr have "dpr s5 = dpr s" by (simp add: loopFrame_def)
  moreover have "dpr (checkCollision t) = dpr t" for t
    using checkCollision_cases [of t] by (auto simp: gameOver_def Let_def)
  ultimately show ?thesis using ca by auto
next
  case GAME_OVER
  then show ?thesis by (simp add: update_def Let_def)
qed

lemma fire_dpr: "dpr (fire ev s) = dpr s"
  by (cases ev)
     (simp_all add: fire_def handleInput_def restartGame_def resetGame_def gameLoop_after
        update_dpr Let_def split: option.splits)

lemma reachable_dpr: "reachable (initGame pg) s \<Longrightarrow> dpr s \<noteq> 0"
proof (induction rule: reachable.induct)
  case start
  show ?case by (simp add: initGame_def Let_def orNum_def)
next
  case (step s ev)
  then show ?case by (simp add: fire_dpr)
qed

subsection \<open>The audio context\<close>

lemma update_ready_fields:
  "state s = READY \<Longrightarrow> state (after (update dt rnd s)) = READY \<and> restartHidden (after (update dt rnd s)) = restartHidden s"
  by (simp add: update_ready)

lemma audioInv_fire: "audioInv s \<Longrightarrow> enabled ev s \<Longrightarrow> audioInv (fire ev s)"
proof (cases ev)
  case PrimaryInput
  assume "audioInv s"
  then show ?thesis using PrimaryInput
    by (auto simp: audioInv_def fire_def handleInput_def restartGame_def resetGame_def Let_def
        split: option.splits)
next
  case RestartClick
  assume "audioInv s" "enabled ev s"
  then show ?thesis using RestartClick
    by (auto simp: audioInv_def fire_def enabled_def restartGame_def resetGame_def Let_def)
next
  case (Frame timestamp rnd)
  assume inv: "audioInv s"
  show ?thesis
  proof (cases "audioCtx s = None")
    case True
    with inv have "state s = READY" "restartHidden s" by (auto simp: audioInv_def)
    then show ?thesis using Frame True
      by (simp add: audioInv_def fire_def gameLoop_after update_ready)
  next
    case False
    then show ?thesis using Frame
      by (simp add: audioInv_def fire_def gameLoop_after update_audioCtx)
  qed
next
  case (EnableMotion now)
  assume "audioInv s"
  then show ?thesis using EnableMotion by (simp add: audioInv_def fire_def)
next
  case (VisibilityChange hidden now)
  assume "audioInv s"
  then show ?thesis using VisibilityChange by (simp add: audioInv_def fire_def Let_def)
next
  case SoundTimeout
  assume "audioInv s"
  then show ?thesis using SoundTimeout by (simp add: audioInv_def fire_def)
next
  case (Resize width height)
  assume "audioInv s"
  then show ?thesis using Resize by (simp add: audioInv_def fire_def)
qed

lemma reachable_audioInv:
  "reachable s0 s \<Longrightarrow> audioInv s0 \<Longrightarrow> audioInv s"
  by (induction rule: reachable.induct) (auto intro: audioInv_fire)

lemma initGame_audioInv: "restartBtnHidden pg \<Longrightarrow> audioInv (initGame pg)"
  by (simp add: audioInv_def initGame_def Let_def)

text \<open>
  Claim C10. In every execution from a page whose restart button starts hidden, the
  audio context exists whenever the game is not in \<open>READY\<close>, so it exists in every tick
  that can score, and neither \<open>update\<close> nor the frame callback ever throws: the
  dereference in \<open>playScoreSound\<close> does not fault. \<open>PLAYING\<close> is first entered by
  \<open>handleInput\<close>, which creates the context; \<open>restartGame\<close> creates none, but its
  button is shown by \<open>gameOver\<close> only, after a game that \<open>handleInput\<close> began.
\<close>

theorem audio_context_present:
  "reachable (initGame pg) s \<Longrightarrow> restartBtnHidden pg \<Longrightarrow>
   (state s = READY \<or> audioCtx s \<noteq> None)
   \<and> \<not> threw (update dt rnd s)
   \<and> \<not> threw (gameLoop timestamp rnd s)"
proof -
  assume r: "reachable (initGame pg) s" and h: "restartBtnHidden pg"
  have inv: "audioInv s" by (rule reachable_audioInv[OF r initGame_audioInv[OF h]])
  then have a: "state s = READY \<or> audioCtx s \<noteq> None" by (auto simp: audioInv_def)
  then have b: "\<not> threw (update d rnd s)" for d by (intro update_threw) auto
  have "\<not> threw (update d rnd (s\<lparr>lastTime := timestamp\<rparr>))" for d
    using a by (intro update_threw) auto
  then have c: "\<not> threw (gameLoop timestamp rnd s)" by (simp add: gameLoop_def Let_def)
  from a b c show ?thesis by simp
qed

theorem audio_context_present_witness:
  "restartBtnHidden page0
   \<and> state (fire PrimaryInput (initGame page0)) = PLAYING
   \<and> audioCtx (fire PrimaryInput (initGame page0)) = Some Running
   \<and> \<not> threw (gameLoop 16 0 (fire PrimaryInput (initGame page0)))"
proof -
  have e: "enabled PrimaryInput (initGame page0)" by (simp add: enabled_def)
  have h: "restartBtnHidden page0" by (simp add: page0_def)
  have r: "reachable (initGame page0) (fire PrimaryInput (initGame page0))"
    by (rule reachable.step[OF reachable.start e])
  have "state (fire PrimaryInput (initGame page0)) = PLAYING"
    "audioCtx (fire PrimaryInput (initGame page0)) = Some Running"
    by (simp_all add: fire_def handleInput_def shouldPause_def eval_defs)
  then show ?thesis using audio_context_present[OF r h, of 16 0 16] h by simp
qed

text \<open>
  Without the context a scoring tick does throw, and the hypothesis on the button is
  needed: were it shown at load, a click on it would start the game with no context.
\<close>

lemma score_without_context_throws:
  "threw (update 16 0 (scoring0\<lparr>audioCtx := None\<rparr>))"
  by (simp add: scoring0_def eval_defs update_def capDt_def frameScaler_def spawnPipe_def
      playScoreSound_def MAX_CONCURRENT_SOUNDS_def)

lemma restart_shown_at_load:
  "reachable (initGame (page0\<lparr>restartBtnHidden := False\<rparr>))
     (fire RestartClick (initGame (page0\<lparr>restartBtnHidden := False\<rparr>)))
   \<and> state (fire RestartClick (initGame (page0\<lparr>restartBtnHidden := False\<rparr>))) = PLAYING
   \<and> audioCtx (fire RestartClick (initGame (page0\<lparr>restartBtnHidden := False\<rparr>))) = None"
proof -
  let ?i = "initGame (page0\<lparr>restartBtnHidden := False\<rparr>)"
  have "enabled RestartClick ?i" by (simp add: enabled_def initGame_def Let_def)
  from reachable.step[OF reachable.start this] show ?thesis
    by (simp add: fire_def restartGame_def resetGame_def initGame_def Let_def)
qed

subsection \<open>Bobbing in \<open>READY\<close>\<close>

lemma update_bird_x: "bird_x (bird (after (update dt rnd s))) = bird_x (bird s) \<and> radius (bird (after (update dt rnd s))) = radius (bird s)"
proof (cases "state s")
  case READY
  then show ?thesis by (simp add: update_ready)
next
  case PLAYING
  then show ?thesis by (simp add: update_playing_bird)
next
  case GAME_OVER
  then show ?thesis by (simp add: update_def Let_def)
qed

lemma readyInv_update: "readyInv s \<Longrightarrow> readyInv (after (update dt rnd s))"
proof (cases "state s = READY")
  case True
  assume "readyInv s"
  with True show ?thesis by (simp add: readyInv_def update_ready bobHeight_def)
next
  case False
  assume "readyInv s"
  with False update_not_ready[OF False, of dt rnd] update_bird_x[of dt rnd s]
  show ?thesis by (simp add: readyInv_def)
qed

lemma readyInv_lastTime: "readyInv (s\<lparr>lastTime := t\<rparr>) = readyInv s"
  by (simp add: readyInv_def)

lemma readyInv_fire: "readyInv s \<Longrightarrow> readyInv (fire ev s)"
proof (cases ev)
  case PrimaryInput
  assume "readyInv s"
  then show ?thesis using PrimaryInput
    by (auto simp: readyInv_def fire_def handleInput_def restartGame_def resetGame_def Let_def
        split: option.splits)
next
  case RestartClick
  assume "readyInv s"
  then show ?thesis using RestartClick
    by (auto simp: readyInv_def fire_def restartGame_def resetGame_def Let_def)
next
  case (Frame timestamp rnd)
  assume inv: "readyInv s"
  then have "readyInv (s\<lparr>lastTime := timestamp\<rparr>)" by (simp add: readyInv_lastTime)
  from readyInv_update[OF this] inv show ?thesis using Frame
    by (simp add: fire_def gameLoop_after)
next
  case (EnableMotion now)
  assume "readyInv s"
  then show ?thesis using EnableMotion by (simp add: readyInv_def fire_def)
next
  case (VisibilityChange hidden now)
  assume "readyInv s"
  then show ?thesis using VisibilityChange by (simp add: readyInv_def fire_def Let_def)
next
  case SoundTimeout
  assume "readyInv s"
  then show ?thesis using SoundTimeout by (simp add: readyInv_def fire_def)
next
  case (Resize width height)
  assume "readyInv s"
  then show ?thesis using Resize by (simp add: readyInv_def fire_def)
qed

lemma reachable_readyInv: "reachable s0 s \<Longrightarrow> readyInv s0 \<Longrightarrow> readyInv s"
  by (induction rule: reachable.induct) (auto intro: readyInv_fire)

lemma initGame_readyInv: "readyInv (initGame pg)"
  by (simp add: readyInv_def initGame_def Let_def bobHeight_def)

lemma reachable_bird_x: "reachable (initGame pg) s \<Longrightarrow> bird_x (bird s) = BIRD_X \<and> radius (bird s) = BIRD_SIZE / 2"
  using reachable_readyInv[OF _ initGame_readyInv] by (simp add: readyInv_def)

lemma bobHeight_near: "\<bar>bobHeight n - 150\<bar> \<le> 5"
proof -
  have "\<bar>sin (real n * 0.05) * 5\<bar> \<le> 5"
    using abs_sin_le_one[of "real n * 0.05"] by (simp add: abs_mult)
  then show ?thesis by (simp add: bobHeight_def)
qed

lemma sin_tick_pos: "0 < sin (0.05 :: real)"
proof (rule sin_gt_zero)
  show "0 < (0.05 :: real)" by simp
  have "(0.05 :: real) < 2" by simp
  also have "2 \<le> pi" by (rule pi_ge_two)
  finally show "(0.05 :: real) < pi" .
qed

text \<open>
  Claim C9, as stated, has the bird at its initial position when play starts, whatever
  the number of \<open>READY\<close> ticks before. The bobbing assigns \<open>bird.y\<close> itself and the
  transition to \<open>PLAYING\<close> does not reset it: after one \<open>READY\<close> tick the game starts with
  the bird at \<open>150 + 5 sin 0.05\<close>, which is not 150.
\<close>

theorem bob_moves_bird:
  "state (fire PrimaryInput (fire (Frame 16 0) (initGame page0))) = PLAYING
   \<and> bird_y (bird (fire PrimaryInput (fire (Frame 16 0) (initGame page0)))) \<noteq> 150"
proof -
  let ?s = "fire (Frame 16 0) (initGame page0)"
  have s: "?s = (initGame page0)\<lparr>lastTime := 16, frames := 1,
      bird := (bird (initGame page0))\<lparr>bird_y := 150 + sin 0.05 * 5\<rparr>\<rparr>"
    by (simp add: fire_def gameLoop_after shouldPause_def update_ready eval_defs)
  have "state (fire PrimaryInput ?s) = PLAYING"
    "bird_y (bird (fire PrimaryInput ?s)) = 150 + sin 0.05 * 5"
    unfolding s by (simp_all add: fire_def handleInput_def shouldPause_def eval_defs)
  then show ?thesis using sin_tick_pos by simp
qed

text \<open>
  Claim C9, amended. When the first input that is not paused takes the game from
  \<open>READY\<close> to \<open>PLAYING\<close>, the velocity, the rotation and the horizontal position of the
  bird are the initial ones, and the height is that of the bobbing: 150 when no \<open>READY\<close>
  tick has run, and \<open>150 + 5 sin (0.05 n)\<close> after \<open>n\<close> ticks, which is within 5 of 150.
  The counter \<open>frames\<close> is the number of \<open>READY\<close> ticks that ran (\<open>ready_ticks_counted\<close>).
\<close>

theorem ready_ticks_bob:
  "reachable (initGame pg) s \<Longrightarrow> state s = READY \<Longrightarrow> \<not> shouldPause s \<Longrightarrow>
   (let s' = fire PrimaryInput s
    in state s' = PLAYING \<and> velocity (bird s') = 0 \<and> rotation (bird s') = 0
       \<and> bird_x (bird s') = BIRD_X
       \<and> bird_y (bird s') = (if frames s = 0 then 150 else 150 + sin (real (frames s) * 0.05) * 5)
       \<and> \<bar>bird_y (bird s') - 150\<bar> \<le> 5)"
proof -
  assume r: "reachable (initGame pg) s" and st: "state s = READY" and np: "\<not> shouldPause s"
  have inv: "readyInv s" by (rule reachable_readyInv[OF r initGame_readyInv])
  have b: "bird (fire PrimaryInput s) = bird s" "state (fire PrimaryInput s) = PLAYING"
    using st np by (auto simp: fire_def handleInput_def Let_def split: option.splits)
  from inv st have f: "bird_x (bird s) = BIRD_X" "velocity (bird s) = 0" "rotation (bird s) = 0"
    "bird_y (bird s) = bobHeight (frames s)" by (simp_all add: readyInv_def)
  show ?thesis using b f bobHeight_near[of "frames s"] by (simp add: Let_def bobHeight_def)
qed

lemma ready_ticks_counted:
  "\<not> shouldPause s \<Longrightarrow> state s = READY \<Longrightarrow>
   state (fold (\<lambda>(timestamp, rnd). fire (Frame timestamp rnd)) ticks s) = READY
   \<and> frames (fold (\<lambda>(timestamp, rnd). fire (Frame timestamp rnd)) ticks s) = frames s + length ticks"
proof (induction ticks arbitrary: s)
  case Nil
  then show ?case by simp
next
  case (Cons tick ticks)
  obtain timestamp rnd where t: "tick = (timestamp, rnd)" by (cases tick)
  let ?s1 = "fire (Frame timestamp rnd) s"
  have s1: "state ?s1 = READY" "frames ?s1 = frames s + 1" "\<not> shouldPause ?s1"
    using Cons.prems
    by (auto simp: fire_def gameLoop_after update_ready shouldPause_def split: if_splits)
  from Cons.IH[OF s1(3) s1(1)] s1 t show ?case by simp
qed

theorem ready_ticks_bob_witness:
  "state (fire (Frame 16 0) (initGame page0)) = READY
   \<and> \<not> shouldPause (fire (Frame 16 0) (initGame page0))
   \<and> frames (fire (Frame 16 0) (initGame page0)) = 1
   \<and> velocity (bird (fire PrimaryInput (fire (Frame 16 0) (initGame page0)))) = 0
   \<and> bird_y (bird (fire PrimaryInput (fire (Frame 16 0) (initGame page0)))) = 150 + sin 0.05 * 5"
proof -
  let ?s = "fire (Frame 16 0) (initGame page0)"
  have e: "enabled (Frame 16 0) (initGame page0)" by (simp add: enabled_def)
  have r: "reachable (initGame page0) ?s" by (rule reachable.step[OF reachable.start e])
  have s: "?s = (initGame page0)\<lparr>lastTime := 16, frames := 1,
      bird := (bird (initGame page0))\<lparr>bird_y := 150 + sin 0.05 * 5\<rparr>\<rparr>"
    by (simp add: fire_def gameLoop_after shouldPause_def update_ready eval_defs)
  have a: "state ?s = READY" "\<not> shouldPause ?s" "frames ?s = 1"
    unfolding s by (simp_all add: shouldPause_def eval_defs)
  from ready_ticks_bob[OF r a(1) a(2)] a show ?thesis by (simp add: Let_def)
qed

subsection \<open>The passed flag and the score\<close>

text \<open>
  When the loop over the pipes throws, it does so at a pipe whose flag has just gone
  from false to true: the pipes before it were visited, the pipes after it were not,
  and the score counts the flags set so far.
\<close>

lemma forEachPipe_Inl:
  "forEachPipe scaler visited todo s = Inl (e, s') \<Longrightarrow>
   \<exists>before pipe rest.
     todo = before @ pipe # rest
     \<and> newlyPassed scaler (bird_x (bird s)) pipe
     \<and> pipes s' = visited @ map (movePipe scaler (bird_x (bird s))) before
                    @ movePipe scaler (bird_x (bird s)) pipe # rest
     \<and> score s' = score s
          + int (length (filter (newlyPassed scaler (bird_x (bird s))) (before @ [pipe])))"
proof (induction todo arbitrary: visited s)
  case Nil
  then show ?case by simp
next
  case (Cons p todo)
  let ?bx = "bird_x (bird s)"
  let ?p1 = "p\<lparr>pipe_x := pipe_x p - PIPE_SPEED * scaler\<rparr>"
  let ?s1 = "s\<lparr>score := score s + 1\<rparr>"
  show ?case
  proof (cases "\<not> passed p \<and> pipe_x p - PIPE_SPEED * scaler + PIPE_WIDTH < ?bx")
    case False
    then have mv: "movePipe scaler ?bx p = ?p1" "\<not> newlyPassed scaler ?bx p"
      by (auto simp: movePipe_def newlyPassed_def Let_def)
    from False Cons.prems have "forEachPipe scaler (visited @ [?p1]) todo s = Inl (e, s')"
      by (auto simp: Let_def)
    from Cons.IH[OF this] obtain before pipe rest where
      h: "todo = before @ pipe # rest" "newlyPassed scaler ?bx pipe"
         "pipes s' = (visited @ [?p1]) @ map (movePipe scaler ?bx) before @ movePipe scaler ?bx pipe # rest"
         "score s' = score s + int (length (filter (newlyPassed scaler ?bx) (before @ [pipe])))"
      by blast
    have "p # todo = (p # before) @ pipe # rest" using h(1) by simp
    moreover have "pipes s' = visited @ map (movePipe scaler ?bx) (p # before) @ movePipe scaler ?bx pipe # rest"
      using h(3) mv by simp
    moreover have "score s' = score s + int (length (filter (newlyPassed scaler ?bx) ((p # before) @ [pipe])))"
      using h(4) mv by simp
    ultimately show ?thesis using h(2) by blast
  next
    case True
    then have mv: "movePipe scaler ?bx p = ?p1\<lparr>passed := True\<rparr>" "newlyPassed scaler ?bx p"
      by (auto simp: movePipe_def newlyPassed_def Let_def)
    have fr: "loopFrame ?s1 (after (playScoreSound ?s1))" by (rule playScoreSound_frame)
    have sc: "score (after (playScoreSound ?s1)) = score s + 1"
      using playScoreSound_score[of ?s1] by simp
    show ?thesis
    proof (cases "playScoreSound ?s1")
      case (Inl thrown)
      obtain e2 s2 where th: "thrown = (e2, s2)" by (cases thrown)
      from Inl th True Cons.prems have s': "s' = s2\<lparr>pipes := visited @ ?p1\<lparr>passed := True\<rparr> # todo\<rparr>"
        by (auto simp: Let_def)
      from sc Inl th have "score s2 = score s + 1" by simp
      with s' mv have "p # todo = [] @ p # todo \<and> newlyPassed scaler ?bx p
        \<and> pipes s' = visited @ map (movePipe scaler ?bx) [] @ movePipe scaler ?bx p # todo
        \<and> score s' = score s + int (length (filter (newlyPassed scaler ?bx) ([] @ [p])))"
        by simp
      then show ?thesis by blast
    next
      case (Inr s2)
      from fr sc Inr have s2: "bird s2 = bird s" "score s2 = score s + 1"
        by (simp_all add: loopFrame_def)
      from Inr True Cons.prems
      have "forEachPipe scaler (visited @ [?p1\<lparr>passed := True\<rparr>]) todo s2 = Inl (e, s')"
        by (simp add: Let_def)
      from Cons.IH[OF this] s2 obtain before pipe rest where
        h: "todo = before @ pipe # rest" "newlyPassed scaler ?bx pipe"
           "pipes s' = (visited @ [?p1\<lparr>passed := True\<rparr>]) @ map (movePipe scaler ?bx) before @ movePipe scaler ?bx pipe # rest"
           "score s' = score s + 1 + int (length (filter (newlyPassed scaler ?bx) (before @ [pipe])))"
        by auto
      have "p # todo = (p # before) @ pipe # rest" using h(1) by simp
      moreover have "pipes s' = visited @ map (movePipe scaler ?bx) (p # before) @ movePipe scaler ?bx pipe # rest"
        using h(3) mv by simp
      moreover have "score s' = score s + int (length (filter (newlyPassed scaler ?bx) ((p # before) @ [pipe])))"
        using h(4) mv by simp
      ultimately show ?thesis using h(2) by blast
    qed
  qed
qed

lemma movePipe_keeps_passed: "passed pipe \<Longrightarrow> passed (movePipe scaler birdX pipe)"
  by (simp add: movePipe_def Let_def)

lemma newlyPassed_iff:
  "newlyPassed scaler birdX pipe =
     (\<not> passed pipe \<and> pipe_x pipe - PIPE_SPEED * scaler + PIPE_WIDTH < birdX)"
  by (simp add: newlyPassed_def movePipe_def Let_def)

lemma passCount_passed: "passed pipe \<Longrightarrow> passCount scalers birdX pipe = 0"
  by (induction scalers arbitrary: pipe) (simp_all add: newlyPassed_def movePipe_keeps_passed)

lemma passCount_le_one: "passCount scalers birdX pipe \<le> 1"
proof (induction scalers arbitrary: pipe)
  case Nil
  show ?case by simp
next
  case (Cons scaler scalers)
  show ?case
  proof (cases "newlyPassed scaler birdX pipe")
    case True
    then have "passed (movePipe scaler birdX pipe)" by (simp add: newlyPassed_def)
    then show ?thesis using True by (simp add: passCount_passed)
  next
    case False
    then show ?thesis using Cons.IH[of "movePipe scaler birdX pipe"] by simp
  qed
qed

text \<open>
  Claim C6. In a \<open>PLAYING\<close> tick every pipe is visited once. The flag \<open>passed\<close> of a pipe
  goes from false to true exactly when it was false and the right edge of the pipe, after
  the move of this tick, is left of the bird; a flag that is true stays true; over any
  run of ticks the flag of one pipe is set at most once; and the score grows by one for
  each flag set in the tick, whether the tick returns (then the pipes off the screen are
  removed) or throws at the sound of a pipe just passed.
\<close>

theorem passed_flag_once:
  "state s = PLAYING \<Longrightarrow>
   (let scaler = frameScaler (capDt dt);
        birdX = bird_x (bird s);
        visited = pipes (beforePipes dt rnd s)
    in (case update dt rnd s of
          Inr s' \<Rightarrow>
            pipes s' = filter onScreen (map (movePipe scaler birdX) visited)
            \<and> score s' = score s + int (length (filter (newlyPassed scaler birdX) visited))
        | Inl (e, s') \<Rightarrow>
            (\<exists>before pipe rest.
               visited = before @ pipe # rest \<and> newlyPassed scaler birdX pipe
               \<and> pipes s' = map (movePipe scaler birdX) before @ movePipe scaler birdX pipe # rest
               \<and> score s' = score s
                    + int (length (filter (newlyPassed scaler birdX) (before @ [pipe])))))
       \<and> (passed p \<longrightarrow> passed (movePipe scaler birdX p))
       \<and> newlyPassed scaler birdX p
           = (\<not> passed p \<and> pipe_x p - PIPE_SPEED * scaler + PIPE_WIDTH < birdX)
       \<and> passCount scalers birdX p \<le> 1)"
proof -
  assume pl: "state s = PLAYING"
  let ?sc = "frameScaler (capDt dt)"
  let ?b = "beforePipes dt rnd s"
  let ?bx = "bird_x (bird s)"
  let ?r = "forEachPipe ?sc [] (pipes ?b) ?b"
  have bx: "bird_x (bird ?b) = ?bx" "score ?b = score s" by (simp_all add: beforePipes_fields)
  have loop: "case update dt rnd s of
          Inr s' \<Rightarrow>
            pipes s' = filter onScreen (map (movePipe ?sc ?bx) (pipes ?b))
            \<and> score s' = score s + int (length (filter (newlyPassed ?sc ?bx) (pipes ?b)))
        | Inl (e, s') \<Rightarrow>
            (\<exists>before pipe rest.
               pipes ?b = before @ pipe # rest \<and> newlyPassed ?sc ?bx pipe
               \<and> pipes s' = map (movePipe ?sc ?bx) before @ movePipe ?sc ?bx pipe # rest
               \<and> score s' = score s
                    + int (length (filter (newlyPassed ?sc ?bx) (before @ [pipe]))))"
  proof (cases ?r)
    case (Inl thrown)
    obtain e s' where th: "thrown = (e, s')" by (cases thrown)
    from forEachPipe_Inl[of ?sc "[]" "pipes ?b" ?b e s'] Inl th bx
    have "\<exists>before pipe rest.
               pipes ?b = before @ pipe # rest \<and> newlyPassed ?sc ?bx pipe
               \<and> pipes s' = map (movePipe ?sc ?bx) before @ movePipe ?sc ?bx pipe # rest
               \<and> score s' = score s
                    + int (length (filter (newlyPassed ?sc ?bx) (before @ [pipe])))"
      by simp
    then show ?thesis using Inl th pl by (simp add: update_playing)
  next
    case (Inr s5)
    from forEachPipe_Inr[OF Inr] bx
    have "pipes s5 = map (movePipe ?sc ?bx) (pipes ?b)"
      "score s5 = score s + int (length (filter (newlyPassed ?sc ?bx) (pipes ?b)))"
      by simp_all
    then show ?thesis using Inr pl by (simp add: update_playing checkCollision_fields)
  qed
  show ?thesis
    unfolding Let_def
    using loop movePipe_keeps_passed[of p ?sc ?bx] newlyPassed_iff[of ?sc ?bx p]
      passCount_le_one[of scalers ?bx p]
    by simp
qed

theorem passed_flag_once_witness:
  "state scoring0 = PLAYING
   \<and> score scoring0 = 0
   \<and> score (after (update 16 0 scoring0)) = 1
   \<and> map passed (pipes (after (update 16 0 scoring0))) = [True]
   \<and> passCount [0.96, 0.96, 0.96] 50 (hd (pipes scoring0)) = 1"
proof -
  have pl: "state scoring0 = PLAYING" by (simp add: scoring0_def)
  have "\<not> threw (update 16 0 scoring0)"
    by (rule update_threw) (simp add: scoring0_def)
  then obtain s1 where s1: "update 16 0 scoring0 = Inr s1"
    by (cases "update 16 0 scoring0") auto
  have vis: "pipes (beforePipes 16 0 scoring0) = [\<lparr> pipe_x = - 1, pipe_y = 100, passed = False \<rparr>]"
    by (simp add: beforePipes_fields scoring0_def eval_defs capDt_def)
  have bx: "bird_x (bird scoring0) = 50" "score scoring0 = 0"
    by (simp_all add: scoring0_def eval_defs)
  from passed_flag_once [OF pl, of 16 0 "hd (pipes scoring0)" "[0.96, 0.96, 0.96]"] s1 vis bx
  have one: "score s1 = 1" "map passed (pipes s1) = [True]"
    by (simp_all add: Let_def capDt_def frameScaler_def newlyPassed_iff movePipe_def
        onScreen_def PHYSICS)
  have cnt: "passCount [0.96, 0.96, 0.96] 50 (hd (pipes scoring0)) = 1"
    by (simp add: scoring0_def newlyPassed_iff movePipe_def eval_defs)
  from one cnt s1 pl bx show ?thesis by simp
qed

subsection \<open>Restart\<close>

text \<open>
  Claim C3. In \<open>GAME_OVER\<close>, a click on the restart button, or a primary input that is
  not paused, resets the game and jumps: the state is \<open>PLAYING\<close>, the score 0, the pipes
  empty, the spawn timer and the frame counter 0, the bird at its initial position
  (\<open>BIRD_X\<close>, 150) with rotation 0, and the velocity is the jump constant, which is not
  zero. No handler writes \<open>bird.x\<close>, so it has its initial value in every state the game
  can reach.
\<close>

theorem restart_from_game_over:
  "reachable (initGame pg) s \<Longrightarrow> state s = GAME_OVER \<Longrightarrow>
   ev = RestartClick \<or> (ev = PrimaryInput \<and> \<not> shouldPause s) \<Longrightarrow>
   (let s' = fire ev s
    in state s' = PLAYING \<and> score s' = 0 \<and> pipes s' = [] \<and> spawnTimer s' = 0
       \<and> frames s' = 0
       \<and> bird_x (bird s') = BIRD_X \<and> bird_y (bird s') = 150
       \<and> rotation (bird s') = 0
       \<and> velocity (bird s') = JUMP \<and> JUMP \<noteq> 0)"
proof -
  assume r: "reachable (initGame pg) s" and over: "state s = GAME_OVER"
    and ev: "ev = RestartClick \<or> (ev = PrimaryInput \<and> \<not> shouldPause s)"
  have x: "bird_x (bird s) = BIRD_X" using reachable_bird_x [OF r] by simp
  from ev over have "fire ev s = restartGame s \<or> fire ev s = restartGame (s\<lparr>audioCtx := Some Running\<rparr>)"
    by (auto simp: fire_def handleInput_def Let_def split: option.splits)
  then show ?thesis
    using x by (auto simp: restartGame_def resetGame_def Let_def JUMP_def)
qed

theorem restart_from_game_over_witness:
  "state fallen = GAME_OVER \<and> \<not> shouldPause fallen
   \<and> bird_y (bird fallen) = 474
   \<and> state (fire RestartClick fallen) = PLAYING
   \<and> bird_y (bird (fire RestartClick fallen)) = 150
   \<and> velocity (bird (fire PrimaryInput fallen)) = - 4.6
   \<and> pipes (fire PrimaryInput fallen) = []"
proof -
  have over: "state fallen = GAME_OVER" and np: "\<not> shouldPause fallen"
    and y: "bird_y (bird fallen) = 474"
    by (simp_all add: fallen_eq shouldPause_def)
  from restart_from_game_over [OF fallen_reachable over, of RestartClick]
    restart_from_game_over [OF fallen_reachable over, of PrimaryInput]
    over np y
  show ?thesis by (simp add: Let_def JUMP_def)
qed

subsection \<open>Input while paused\<close>

text \<open>The primary input does nothing while the game is paused.\<close>

lemma handleInput_paused: "shouldPause s \<Longrightarrow> fire PrimaryInput s = s"
  by (simp add: fire_def handleInput_def)

text \<open>
  Claim C4. While the game is paused every input is to be ignored, the restart control
  included. \<open>handleInput\<close> starts with the pause check, but the restart button calls
  \<open>restartGame\<close> directly, which has none: after a game that ended on the floor, with
  the tab hidden, the click restarts the game, where the primary input in the same
  situation changes nothing.
\<close>

theorem restart_click_not_ignored_when_paused:
  "reachable (initGame page0) fallenHidden
   \<and> state fallenHidden = GAME_OVER
   \<and> shouldPause fallenHidden
   \<and> enabled RestartClick fallenHidden
   \<and> state (fire RestartClick fallenHidden) = PLAYING
   \<and> velocity (bird (fire RestartClick fallenHidden)) = JUMP
   \<and> fire PrimaryInput fallenHidden = fallenHidden"
proof -
  have paused: "shouldPause fallenHidden"
    by (simp add: fallenHidden_def fire_def shouldPause_def Let_def)
  have over: "state fallenHidden = GAME_OVER"
    by (simp add: fallenHidden_def fallen_eq fire_def shouldPause_def Let_def)
  have shown: "enabled RestartClick fallenHidden"
    by (simp add: fallenHidden_def fallen_eq fire_def enabled_def shouldPause_def Let_def)
  have restarted: "state (fire RestartClick fallenHidden) = PLAYING"
    "velocity (bird (fire RestartClick fallenHidden)) = JUMP"
    by (simp_all add: fire_def [of RestartClick] restartGame_def resetGame_def Let_def)
  show ?thesis
    using fallenHidden_reachable paused over shown restarted handleInput_paused [OF paused]
    by simp
qed

end
